theory Spec2Isabelle
  imports Main "HOL-Library.Word"
begin

unbundle bit_operations_syntax

section \<open>The relay controller of main.c\<close>

text \<open>
  The program is one interrupt handler, \<^verbatim>\<open>ISR(TIMER1_COMPA_vect)\<close>, run once per
  timer tick, and the body of the \<^verbatim>\<open>while (1)\<close> loop of \<^verbatim>\<open>main\<close>, which copies
  the globals to the output pins. The target is an 8-bit AVR: \<^verbatim>\<open>char\<close> is 8 bits wide,
  \<^verbatim>\<open>int\<close> and \<^verbatim>\<open>unsigned short int\<close> are 16 bits wide.
\<close>

subsection \<open>Constants\<close>

definition MOMENTARY_DELAY :: "16 word" where "MOMENTARY_DELAY = 400"
definition LATCHING_TIME :: "16 word" where "LATCHING_TIME = 3"

text \<open>Locations of the state flags in the state variable.\<close>

definition SP :: nat where "SP = 4"
definition SS :: nat where "SS = 3"
definition LS :: nat where "LS = 2"
definition PO :: nat where "PO = 1"
definition TS :: nat where "TS = 0"

text \<open>
  Bit numbers of port B. They come from \<^verbatim>\<open><avr/io.h>\<close> of the C library, which is
  not part of the repository; there \<^verbatim>\<open>PBn\<close> and \<^verbatim>\<open>PINBn\<close> are \<open>n\<close>.
\<close>

definition PB1 :: nat where "PB1 = 1"
definition PB3 :: nat where "PB3 = 3"
definition PB4 :: nat where "PB4 = 4"
definition PB5 :: nat where "PB5 = 5"
definition PINB2 :: nat where "PINB2 = 2"

subsection \<open>The global variables\<close>

text \<open>
  \<^verbatim>\<open>TCNT0\<close> is the counter register of timer 0; the handler only ever writes 0 to it.
\<close>

record globals =
  state :: "8 word"
  brightness_control :: "16 word"
  brighness_up :: "16 word"
  pulse_counter :: "16 word"
  intr_count :: "16 word"
  TCNT0 :: "8 word"

text \<open>The initialisers of the globals (\<^verbatim>\<open>TCNT0\<close> is 0 after reset).\<close>

definition init :: globals where
  "init = \<lparr>state = 0, brightness_control = 0, brighness_up = 1,
           pulse_counter = 0, intr_count = 0, TCNT0 = 0\<rparr>"

text \<open>\<^verbatim>\<open>(state >> n) & 1\<close>, read as a C truth value.\<close>

definition flag :: "8 word \<Rightarrow> nat \<Rightarrow> bool" where
  "flag st n = (drop_bit n st AND 1 \<noteq> 0)"

text \<open>\<^verbatim>\<open>state |= (1 << n)\<close> and \<^verbatim>\<open>state &= ~(1 << n)\<close>.\<close>

definition set_flag :: "nat \<Rightarrow> globals \<Rightarrow> globals" where
  "set_flag n g = g\<lparr>state := state g OR push_bit n 1\<rparr>"

definition clear_flag :: "nat \<Rightarrow> globals \<Rightarrow> globals" where
  "clear_flag n g = g\<lparr>state := state g AND NOT (push_bit n 1)\<rparr>"

text \<open>The names the specification gives to the flags and counters.\<close>

definition pulse_pending :: "globals \<Rightarrow> bool" where
  "pulse_pending g = flag (state g) SP"
definition switch_pressed :: "globals \<Rightarrow> bool" where
  "switch_pressed g = flag (state g) SS"
definition switch_was_pressed :: "globals \<Rightarrow> bool" where
  "switch_was_pressed g = flag (state g) LS"
definition pedal_on :: "globals \<Rightarrow> bool" where
  "pedal_on g = flag (state g) PO"
definition hold_timer_expired :: "globals \<Rightarrow> bool" where
  "hold_timer_expired g = flag (state g) TS"

text \<open>The switch is active low: \<^verbatim>\<open>(PINB & (1 << PINB2)) == 0\<close>.\<close>

definition pressed :: "8 word \<Rightarrow> bool" where
  "pressed pinb = (pinb AND push_bit PINB2 1 = 0)"

subsection \<open>The interrupt handler\<close>

text \<open>Lines 61 to 66: count for the momentary delay.\<close>

definition momentary_count :: "globals \<Rightarrow> globals" where
  "momentary_count g =
     (if intr_count g = MOMENTARY_DELAY
      then (set_flag TS g)\<lparr>intr_count := 0\<rparr>
      else g\<lparr>intr_count := intr_count g + 1\<rparr>)"

text \<open>Lines 69 to 73: set the last state bit equal to the current state.\<close>

definition last_state :: "globals \<Rightarrow> globals" where
  "last_state g = (if flag (state g) SS then set_flag LS g else clear_flag LS g)"

text \<open>Lines 76 to 97: the switching logic, on the sample \<^verbatim>\<open>PINB\<close>.\<close>

definition fsm :: "8 word \<Rightarrow> globals \<Rightarrow> globals" where
  "fsm pinb g =
     (if pressed pinb then
        (let g1 = set_flag SS g in
         if \<not> flag (state g1) LS then
           (if \<not> flag (state g1) PO then
              (clear_flag TS
                 ((set_flag SP (set_flag PO (g1\<lparr>intr_count := 0\<rparr>)))
                    \<lparr>brightness_control := 0\<rparr>))
                \<lparr>TCNT0 := 0\<rparr>
            else set_flag SP (clear_flag PO g1))
         else g1)
      else
        (let g1 = clear_flag SS g in
         if flag (state g1) LS \<and> flag (state g1) PO \<and> flag (state g1) TS
         then set_flag SP (clear_flag PO g1)
         else g1))"

text \<open>Lines 100 to 112: the brightness ramp. The comparisons are unsigned.\<close>

definition shimmer :: "globals \<Rightarrow> globals" where
  "shimmer g =
     (if brighness_up g \<noteq> 0 then
        (if brightness_control g < 254
         then g\<lparr>brightness_control := brightness_control g + 1\<rparr>
         else g\<lparr>brighness_up := 0\<rparr>)
      else
        (if brightness_control g > 10
         then g\<lparr>brightness_control := brightness_control g - 1\<rparr>
         else g\<lparr>brighness_up := 1\<rparr>))"

text \<open>Lines 115 to 120: the pulse counter. The comparison is signed.\<close>

definition pulse :: "globals \<Rightarrow> globals" where
  "pulse g =
     (if flag (state g) SP \<and> pulse_counter g <s LATCHING_TIME
      then g\<lparr>pulse_counter := pulse_counter g + 1\<rparr>
      else clear_flag SP (g\<lparr>pulse_counter := 0\<rparr>))"

definition ISR :: "globals \<Rightarrow> 8 word \<Rightarrow> globals" where
  "ISR g pinb = pulse (shimmer (fsm pinb (last_state (momentary_count g))))"

text \<open>A sequence of ticks, one switch sample each.\<close>

primrec run :: "globals \<Rightarrow> 8 word list \<Rightarrow> globals" where
  "run g [] = g"
| "run g (p # ps) = run (ISR g p) ps"

subsection \<open>The main loop\<close>

text \<open>
  One iteration of the \<^verbatim>\<open>while (1)\<close> loop (lines 149 to 169), on one snapshot of the
  globals. It writes the two output registers \<^verbatim>\<open>PORTB\<close> and \<^verbatim>\<open>OCR0A\<close>; the
  assignment \<^verbatim>\<open>OCR0A = brightness_control\<close> keeps the low byte.
\<close>

record outputs =
  PORTB :: "8 word"
  OCR0A :: "8 word"

definition pedal_out :: "globals \<Rightarrow> outputs \<Rightarrow> outputs" where
  "pedal_out g out =
     (if flag (state g) PO then
        (let o1 = out\<lparr>PORTB := PORTB out OR (push_bit PB3 1 OR push_bit PB1 1)\<rparr>;
             o2 = o1\<lparr>PORTB := PORTB o1 AND NOT (push_bit PB5 1)\<rparr>
         in if flag (state g) SS
            then o2\<lparr>OCR0A := ucast (brightness_control g)\<rparr>
            else o2\<lparr>OCR0A := 255\<rparr>)
      else
        (let o1 = out\<lparr>OCR0A := 0\<rparr>;
             o2 = o1\<lparr>PORTB := PORTB o1 AND NOT (push_bit PB3 1)\<rparr>;
             o3 = o2\<lparr>PORTB := PORTB o2 AND NOT (push_bit PB1 1)\<rparr>
         in o3\<lparr>PORTB := PORTB o3 OR push_bit PB5 1\<rparr>))"

definition latch_out :: "globals \<Rightarrow> outputs \<Rightarrow> outputs" where
  "latch_out g out =
     (if pulse_counter g \<noteq> 0
      then out\<lparr>PORTB := PORTB out OR push_bit PB4 1\<rparr>
      else out\<lparr>PORTB := PORTB out AND NOT (push_bit PB4 1)\<rparr>)"

definition main_loop :: "globals \<Rightarrow> outputs \<Rightarrow> outputs" where
  "main_loop g out = latch_out g (pedal_out g out)"

subsection \<open>Events of a tick and the invariant of the globals\<close>

text \<open>
  A tick is a rising edge when the sample is pressed and the switch state bit, which
  still holds the sample of the previous tick, is clear; a falling edge is the converse.
\<close>

definition rising :: "globals \<Rightarrow> 8 word \<Rightarrow> bool" where
  "rising g pinb = (pressed pinb \<and> \<not> switch_pressed g)"

definition falling :: "globals \<Rightarrow> 8 word \<Rightarrow> bool" where
  "falling g pinb = (\<not> pressed pinb \<and> switch_pressed g)"

text \<open>The timer state bit as the switching logic of this tick sees it (after line 62).\<close>

definition expired_now :: "globals \<Rightarrow> bool" where
  "expired_now g = (hold_timer_expired g \<or> intr_count g = MOMENTARY_DELAY)"

text \<open>The tick takes the branch 100x (lines 80 to 85): a press that turns the pedal on.\<close>

definition press_on :: "globals \<Rightarrow> 8 word \<Rightarrow> bool" where
  "press_on g pinb = (rising g pinb \<and> \<not> pedal_on g)"

text \<open>The switching logic of this tick executes \<^verbatim>\<open>state |= (1<<SP)\<close>.\<close>

definition arms :: "globals \<Rightarrow> 8 word \<Rightarrow> bool" where
  "arms g pinb = (rising g pinb \<or> (falling g pinb \<and> pedal_on g \<and> expired_now g))"

text \<open>What holds of the globals between two ticks, from startup on.\<close>

definition wf :: "globals \<Rightarrow> bool" where
  "wf g = (unat (pulse_counter g) \<le> unat LATCHING_TIME
           \<and> pulse_pending g = (pulse_counter g \<noteq> 0)
           \<and> unat (intr_count g) \<le> unat MOMENTARY_DELAY
           \<and> brightness_control g \<le> 254
           \<and> (brighness_up g = 0 \<or> brighness_up g = 1)
           \<and> (brighness_up g \<noteq> 0 \<or> 10 \<le> brightness_control g))"

text \<open>Ticks still to come with the pulse flag set, the current one not counted.\<close>

definition pulse_left :: "globals \<Rightarrow> nat" where
  "pulse_left g = (if pulse_counter g = 0 then 0 else 4 - unat (pulse_counter g))"

text \<open>
  The position of the brightness ramp on its cycle, for brightness between 10 and 254:
  0 to 244 while rising from 10 to 254, 245 to 489 while falling from 254 to 10.
\<close>

definition phase :: "globals \<Rightarrow> nat" where
  "phase g = (if brighness_up g \<noteq> 0 then unat (brightness_control g) - 10
              else 499 - unat (brightness_control g))"

text \<open>
  The switch has stayed pressed for \<open>n\<close> ticks since a press that turned the pedal on:
  the pedal is on, and either the timer state bit is still clear and the counter is
  \<open>n\<close>, or \<open>n\<close> is past \<open>MOMENTARY_DELAY\<close> and the bit is set.
\<close>

definition held :: "globals \<Rightarrow> nat \<Rightarrow> bool" where
  "held g n = (switch_pressed g \<and> pedal_on g
     \<and> (if hold_timer_expired g then unat MOMENTARY_DELAY < n
         else unat (intr_count g) = n \<and> n \<le> unat MOMENTARY_DELAY))"

text \<open>No tick of the run takes the branch that resets the brightness.\<close>

primrec quiet :: "globals \<Rightarrow> 8 word list \<Rightarrow> bool" where
  "quiet g [] = True"
| "quiet g (p # ps) = (\<not> press_on g p \<and> quiet (ISR g p) ps)"

text \<open>The number of ticks of the run at which the timer state bit goes from 0 to 1.\<close>

primrec rises :: "globals \<Rightarrow> 8 word list \<Rightarrow> nat" where
  "rises g [] = 0"
| "rises g (p # ps) =
     (if \<not> hold_timer_expired g \<and> hold_timer_expired (ISR g p) then 1 else 0)
       + rises (ISR g p) ps"

section \<open>The blocks of the handler, one at a time\<close>

lemma pressed_bit: "pressed p = (\<not> bit p 2)"
  unfolding pressed_def PINB2_def
  using and_exp_eq_0_iff_not_bit[of p 2] by simp

lemma flag_bit: "flag st n = bit st n"
  by (simp add: flag_def bit_iff_odd_drop_bit and_one_eq mod_2_eq_odd)

lemma state_set_flag: "flag (state (set_flag n g)) m = (flag (state g) m \<or> (m = n \<and> n < 8))"
  by (auto simp add: flag_bit set_flag_def bit_simps)

lemma state_clear_flag: "flag (state (clear_flag n g)) m = (flag (state g) m \<and> m \<noteq> n)"
  by (auto simp add: flag_bit clear_flag_def bit_simps dest: bit_imp_le_length)

lemma fields_set_flag:
  "brightness_control (set_flag n g) = brightness_control g"
  "brighness_up (set_flag n g) = brighness_up g"
  "pulse_counter (set_flag n g) = pulse_counter g"
  "intr_count (set_flag n g) = intr_count g"
  "TCNT0 (set_flag n g) = TCNT0 g"
  by (simp_all add: set_flag_def)

lemma fields_clear_flag:
  "brightness_control (clear_flag n g) = brightness_control g"
  "brighness_up (clear_flag n g) = brighness_up g"
  "pulse_counter (clear_flag n g) = pulse_counter g"
  "intr_count (clear_flag n g) = intr_count g"
  "TCNT0 (clear_flag n g) = TCNT0 g"
  by (simp_all add: clear_flag_def)

lemmas flag_simps = state_set_flag state_clear_flag fields_set_flag fields_clear_flag
  SP_def SS_def LS_def PO_def TS_def

text \<open>The five flags after each block of the handler.\<close>

lemma momentary_count_flags:
  "flag (state (momentary_count g)) SP = flag (state g) SP"
  "flag (state (momentary_count g)) SS = flag (state g) SS"
  "flag (state (momentary_count g)) LS = flag (state g) LS"
  "flag (state (momentary_count g)) PO = flag (state g) PO"
  "flag (state (momentary_count g)) TS = (flag (state g) TS \<or> intr_count g = MOMENTARY_DELAY)"
  by (simp_all add: momentary_count_def flag_simps)

lemma momentary_count_fields:
  "intr_count (momentary_count g) = (if intr_count g = MOMENTARY_DELAY then 0 else intr_count g + 1)"
  "brightness_control (momentary_count g) = brightness_control g"
  "brighness_up (momentary_count g) = brighness_up g"
  "pulse_counter (momentary_count g) = pulse_counter g"
  by (simp_all add: momentary_count_def flag_simps)

lemma last_state_flags:
  "flag (state (last_state g)) SP = flag (state g) SP"
  "flag (state (last_state g)) SS = flag (state g) SS"
  "flag (state (last_state g)) LS = flag (state g) SS"
  "flag (state (last_state g)) PO = flag (state g) PO"
  "flag (state (last_state g)) TS = flag (state g) TS"
  by (simp_all add: last_state_def flag_simps)

lemma last_state_fields:
  "intr_count (last_state g) = intr_count g"
  "brightness_control (last_state g) = brightness_control g"
  "brighness_up (last_state g) = brighness_up g"
  "pulse_counter (last_state g) = pulse_counter g"
  by (simp_all add: last_state_def flag_simps)

lemma fsm_flags:
  "flag (state (fsm p g)) SS = pressed p"
  "flag (state (fsm p g)) LS = flag (state g) LS"
  "flag (state (fsm p g)) PO =
     (if pressed p then (if flag (state g) LS then flag (state g) PO else \<not> flag (state g) PO)
      else flag (state g) PO \<and> \<not> (flag (state g) LS \<and> flag (state g) TS))"
  "flag (state (fsm p g)) TS =
     (flag (state g) TS \<and> \<not> (pressed p \<and> \<not> flag (state g) LS \<and> \<not> flag (state g) PO))"
  "flag (state (fsm p g)) SP =
     (flag (state g) SP \<or> (pressed p \<and> \<not> flag (state g) LS)
       \<or> (\<not> pressed p \<and> flag (state g) LS \<and> flag (state g) PO \<and> flag (state g) TS))"
  by (simp_all add: fsm_def flag_simps Let_def)

lemma fsm_fields:
  "intr_count (fsm p g) =
     (if pressed p \<and> \<not> flag (state g) LS \<and> \<not> flag (state g) PO then 0 else intr_count g)"
  "brightness_control (fsm p g) =
     (if pressed p \<and> \<not> flag (state g) LS \<and> \<not> flag (state g) PO then 0
      else brightness_control g)"
  "brighness_up (fsm p g) = brighness_up g"
  "pulse_counter (fsm p g) = pulse_counter g"
  by (simp_all add: fsm_def flag_simps Let_def)

lemma shimmer_fields:
  "state (shimmer g) = state g"
  "intr_count (shimmer g) = intr_count g"
  "pulse_counter (shimmer g) = pulse_counter g"
  by (simp_all add: shimmer_def)

lemma pulse_flags:
  "flag (state (pulse g)) SP = (flag (state g) SP \<and> pulse_counter g <s LATCHING_TIME)"
  "flag (state (pulse g)) SS = flag (state g) SS"
  "flag (state (pulse g)) LS = flag (state g) LS"
  "flag (state (pulse g)) PO = flag (state g) PO"
  "flag (state (pulse g)) TS = flag (state g) TS"
  by (simp_all add: pulse_def flag_simps)

lemma pulse_fields:
  "pulse_counter (pulse g) =
     (if flag (state g) SP \<and> pulse_counter g <s LATCHING_TIME then pulse_counter g + 1 else 0)"
  "intr_count (pulse g) = intr_count g"
  "brightness_control (pulse g) = brightness_control g"
  "brighness_up (pulse g) = brighness_up g"
  by (simp_all add: pulse_def flag_simps)

section \<open>One tick of the handler\<close>

lemmas obs_defs = pulse_pending_def switch_pressed_def switch_was_pressed_def pedal_on_def
  hold_timer_expired_def

lemmas block_simps = momentary_count_flags momentary_count_fields last_state_flags
  last_state_fields fsm_flags fsm_fields shimmer_fields pulse_flags pulse_fields

lemmas edge_defs = rising_def falling_def expired_now_def arms_def press_on_def

lemma ISR_switch_pressed: "switch_pressed (ISR g p) = pressed p"
  by (simp add: ISR_def obs_defs block_simps)

lemma ISR_switch_was_pressed: "switch_was_pressed (ISR g p) = switch_pressed g"
  by (simp add: ISR_def obs_defs block_simps)

lemma ISR_pedal_on:
  "pedal_on (ISR g p) =
     (if rising g p then \<not> pedal_on g
      else pedal_on g \<and> \<not> (falling g p \<and> expired_now g))"
  by (auto simp add: ISR_def obs_defs edge_defs block_simps)

lemma ISR_hold_timer_expired:
  "hold_timer_expired (ISR g p) = (\<not> press_on g p \<and> expired_now g)"
  by (auto simp add: ISR_def obs_defs edge_defs block_simps)

lemma ISR_intr_count:
  "intr_count (ISR g p) =
     (if press_on g p \<or> intr_count g = MOMENTARY_DELAY then 0 else intr_count g + 1)"
  by (simp add: ISR_def obs_defs edge_defs block_simps)

lemma ISR_pulse_pending:
  "pulse_pending (ISR g p) =
     ((pulse_pending g \<or> arms g p) \<and> pulse_counter g <s LATCHING_TIME)"
  by (auto simp add: ISR_def obs_defs edge_defs block_simps)

lemma ISR_pulse_counter:
  "pulse_counter (ISR g p) =
     (if (pulse_pending g \<or> arms g p) \<and> pulse_counter g <s LATCHING_TIME
      then pulse_counter g + 1 else 0)"
  by (auto simp add: ISR_def obs_defs edge_defs block_simps)

lemma shimmer_cong:
  "brightness_control g = brightness_control h \<Longrightarrow> brighness_up g = brighness_up h \<Longrightarrow>
   brightness_control (shimmer g) = brightness_control (shimmer h)
   \<and> brighness_up (shimmer g) = brighness_up (shimmer h)"
  by (simp add: shimmer_def)

lemma ISR_brightness:
  "brightness_control (ISR g p) =
     brightness_control (shimmer (if press_on g p then g\<lparr>brightness_control := 0\<rparr> else g))"
  "brighness_up (ISR g p) =
     brighness_up (shimmer (if press_on g p then g\<lparr>brightness_control := 0\<rparr> else g))"
proof -
  let ?h = "fsm p (last_state (momentary_count g))"
  let ?k = "if press_on g p then g\<lparr>brightness_control := 0\<rparr> else g"
  have "brightness_control ?h = brightness_control ?k" "brighness_up ?h = brighness_up ?k"
    by (simp_all add: obs_defs edge_defs block_simps)
  from shimmer_cong[OF this]
  show "brightness_control (ISR g p) = brightness_control (shimmer ?k)"
    "brighness_up (ISR g p) = brighness_up (shimmer ?k)"
    by (simp_all add: ISR_def pulse_fields)
qed

lemmas ISR_simps = ISR_switch_pressed ISR_switch_was_pressed ISR_pedal_on
  ISR_hold_timer_expired ISR_intr_count ISR_pulse_pending ISR_pulse_counter

section \<open>The invariant\<close>

lemma small_pulse_counter:
  "unat (w :: 16 word) \<le> 3 \<Longrightarrow> w = 0 \<or> w = 1 \<or> w = 2 \<or> w = 3"
  by unat_arith

lemma sless_LATCHING_TIME:
  "unat (w :: 16 word) \<le> 3 \<Longrightarrow> (w <s LATCHING_TIME) = (w \<noteq> 3)"
  by (auto simp add: LATCHING_TIME_def word_sless_alt dest!: small_pulse_counter)

lemma unat_intr_count_Suc:
  "unat (w :: 16 word) \<le> 400 \<Longrightarrow> unat (w + 1) = Suc (unat w)"
  by (simp add: unat_word_ariths)

lemma intr_count_eq_400: "(w = (400 :: 16 word)) = (unat w = 400)"
  by unat_arith

lemma shimmer_bounds:
  assumes "brightness_control g \<le> 254" "brighness_up g = 0 \<or> brighness_up g = 1"
  shows "brightness_control (shimmer g) \<le> 254"
    and "brighness_up (shimmer g) = 0 \<or> brighness_up (shimmer g) = 1"
    and "brighness_up (shimmer g) \<noteq> 0 \<or> 10 \<le> brightness_control (shimmer g)"
  using assms by (auto simp add: shimmer_def; unat_arith)+

lemma wf_init: "wf init"
  by (simp add: wf_def init_def pulse_pending_def flag_def LATCHING_TIME_def MOMENTARY_DELAY_def)

lemma wf_ISR:
  assumes "wf g"
  shows "wf (ISR g p)"
proof -
  from assms have pc: "unat (pulse_counter g) \<le> 3" and ic: "unat (intr_count g) \<le> 400"
    and b: "brightness_control g \<le> 254" and up: "brighness_up g = 0 \<or> brighness_up g = 1"
    and sp: "pulse_pending g = (pulse_counter g \<noteq> 0)"
    by (simp_all add: wf_def LATCHING_TIME_def MOMENTARY_DELAY_def)
  let ?k = "if press_on g p then g\<lparr>brightness_control := 0\<rparr> else g"
  have k: "brightness_control ?k \<le> 254" "brighness_up ?k = 0 \<or> brighness_up ?k = 1"
    using b up by auto
  have "unat (pulse_counter (ISR g p)) \<le> 3"
    using small_pulse_counter[OF pc] by (auto simp add: ISR_pulse_counter sless_LATCHING_TIME)
  moreover have "pulse_pending (ISR g p) = (pulse_counter (ISR g p) \<noteq> 0)"
    using small_pulse_counter[OF pc] sp
    by (auto simp add: ISR_pulse_counter ISR_pulse_pending sless_LATCHING_TIME)
  moreover have "unat (intr_count (ISR g p)) \<le> 400"
    using ic by (auto simp add: ISR_intr_count MOMENTARY_DELAY_def unat_intr_count_Suc
        intr_count_eq_400)
  ultimately show ?thesis
    using shimmer_bounds[OF k]
    by (simp add: wf_def ISR_brightness LATCHING_TIME_def MOMENTARY_DELAY_def)
qed

lemma wf_run: "wf g \<Longrightarrow> wf (run g ps)"
  by (induction ps arbitrary: g) (simp_all add: wf_ISR)

lemma run_append: "run g (ps @ qs) = run (run g ps) qs"
  by (induction ps arbitrary: g) simp_all

text \<open>Every state that a run from startup reaches satisfies the invariant.\<close>

lemma wf_reachable: "wf (run init ps)"
  by (rule wf_run[OF wf_init])

lemma wf_pulse_counter:
  assumes "wf g"
  shows "pulse_counter g = 0 \<or> pulse_counter g = 1 \<or> pulse_counter g = 2
       \<or> pulse_counter g = 3"
    and "(pulse_counter g <s LATCHING_TIME) = (pulse_counter g \<noteq> 3)"
    and "pulse_pending g = (pulse_counter g \<noteq> 0)"
proof -
  from assms have "unat (pulse_counter g) \<le> 3"
    by (simp add: wf_def LATCHING_TIME_def)
  then show "pulse_counter g = 0 \<or> pulse_counter g = 1 \<or> pulse_counter g = 2
       \<or> pulse_counter g = 3"
    and "(pulse_counter g <s LATCHING_TIME) = (pulse_counter g \<noteq> 3)"
    by (simp_all add: small_pulse_counter sless_LATCHING_TIME)
  from assms show "pulse_pending g = (pulse_counter g \<noteq> 0)"
    by (simp add: wf_def)
qed

section \<open>Runs from startup, evaluated\<close>

lemmas eval_defs = ISR_def pulse_def shimmer_def fsm_def last_state_def momentary_count_def
  flag_def set_flag_def clear_flag_def pressed_def SP_def SS_def LS_def PO_def TS_def PINB2_def
  MOMENTARY_DELAY_def LATCHING_TIME_def Let_def word_sless_alt

text \<open>The sample 0 has the switch pressed, the sample 4 has it released.\<close>

lemma samples: "pressed 0" "\<not> pressed 4"
  by (simp_all add: pressed_def PINB2_def)

lemma run_press_release_release:
  "run init [0, 4, 4] = \<lparr>state = 18, brightness_control = 3, brighness_up = 1,
     pulse_counter = 3, intr_count = 2, TCNT0 = 0\<rparr>"
  by (simp add: init_def eval_defs)

section \<open>A tap\<close>

lemma rising_tick:
  assumes "rising g p"
  shows "pedal_on (ISR g p) = (\<not> pedal_on g)"
    and "wf g \<Longrightarrow> pulse_pending (ISR g p) = (pulse_counter g \<noteq> 3)"
  using assms
  by (simp_all add: ISR_simps arms_def wf_pulse_counter)

text \<open>
  C1. For every state in which the debounced switch was not pressed on the previous
  tick, a tick with the switch pressed flips \<open>pedal_on\<close> and arms \<open>pulse_pending\<close>, and
  a release fewer than \<open>MOMENTARY_DELAY\<close> ticks later changes neither.

  The handler does not do this in every such state. Three ticks after a press from
  startup (press, release, release) the pulse counter stands at \<open>LATCHING_TIME\<close> and
  the switch is released. A press on the next tick is a rising edge: it turns the pedal
  off and executes \<^verbatim>\<open>state |= (1<<SP)\<close> in line 88, but lines 115 to 119 of the
  same tick clear the flag and the counter again, so the tick ends with the pedal
  switched and neither a pending pulse nor a raised latching pin in the main loop.
\<close>

theorem press_at_end_of_pulse_arms_nothing:
  "pedal_on (run init [0, 4, 4]) \<and> rising (run init [0, 4, 4]) 0
   \<and> \<not> pedal_on (ISR (run init [0, 4, 4]) 0)
   \<and> \<not> pulse_pending (ISR (run init [0, 4, 4]) 0)
   \<and> pulse_counter (ISR (run init [0, 4, 4]) 0) = 0
   \<and> \<not> bit (PORTB (main_loop (ISR (run init [0, 4, 4]) 0) out)) PB4"
proof -
  have "ISR \<lparr>state = 18, brightness_control = 3, brighness_up = 1,
       pulse_counter = 3, intr_count = 2, TCNT0 = 0\<rparr> 0
     = \<lparr>state = 8, brightness_control = 4, brighness_up = 1,
       pulse_counter = 0, intr_count = 3, TCNT0 = 0\<rparr>"
    by (simp add: eval_defs)
  then show ?thesis
    unfolding run_press_release_release
    by (simp add: rising_def pressed_def PINB2_def pedal_on_def pulse_pending_def
        switch_pressed_def flag_def SP_def SS_def PO_def main_loop_def latch_out_def
        pedal_out_def PB4_def bit_simps)
qed

section \<open>The latching pulse\<close>

lemma pulse_left_pending: "wf g \<Longrightarrow> pulse_pending g = (0 < pulse_left g)"
  using wf_pulse_counter(1)[of g]
  by (auto simp add: pulse_left_def wf_pulse_counter(3))

lemma pulse_left_zero: "wf g \<Longrightarrow> (pulse_left g = 0) = (pulse_counter g = 0)"
  using wf_pulse_counter(1)[of g]
  by (auto simp add: pulse_left_def)

lemma pulse_left_counter:
  "wf g \<Longrightarrow> 0 < pulse_left g \<Longrightarrow> unat (pulse_counter g) = 4 - pulse_left g"
  using wf_pulse_counter(1)[of g]
  by (auto simp add: pulse_left_def)

lemma sless_values:
  "(0 :: 16 word) <s LATCHING_TIME" "(1 :: 16 word) <s LATCHING_TIME"
  "(2 :: 16 word) <s LATCHING_TIME" "\<not> (3 :: 16 word) <s LATCHING_TIME"
  by (simp_all add: LATCHING_TIME_def word_sless_alt)

lemma pulse_left_ISR:
  assumes "wf g"
  shows "pulse_left (ISR g p) =
     (if pulse_counter g = 0 then (if arms g p then 3 else 0) else pulse_left g - 1)"
proof -
  have pend: "pulse_pending g = (pulse_counter g \<noteq> 0)"
    by (rule wf_pulse_counter(3)[OF assms])
  from wf_pulse_counter(1)[OF assms] show ?thesis
    by (elim disjE) (simp_all add: pulse_left_def ISR_pulse_counter pend sless_values)
qed

lemma pulse_countdown:
  "wf g \<Longrightarrow> length ps \<le> pulse_left g \<Longrightarrow> pulse_left (run g ps) = pulse_left g - length ps"
proof (induction ps arbitrary: g)
  case Nil
  then show ?case by simp
next
  case (Cons p ps)
  from Cons.prems have "pulse_counter g \<noteq> 0"
    by (auto simp add: pulse_left_def)
  with Cons.prems have "pulse_left (ISR g p) = pulse_left g - 1"
    by (simp add: pulse_left_ISR)
  with Cons.IH[of "ISR g p"] Cons.prems show ?case
    by (simp add: wf_ISR)
qed

lemma fresh_arm:
  assumes "wf g" "\<not> pulse_pending g" "pulse_pending (ISR g p)"
  shows "pulse_left (ISR g p) = 3"
proof -
  from assms(1,2) have "pulse_counter g = 0"
    by (simp add: wf_pulse_counter(3))
  moreover from this assms have "arms g p"
    by (simp add: ISR_pulse_pending)
  ultimately show ?thesis
    using assms(1) by (simp add: pulse_left_ISR)
qed

text \<open>
  C3. At every tick that arms the pulse (the flag is clear before the tick and set after
  it), \<open>pulse_pending\<close> is set after that tick and after each of the next
  \<open>LATCHING_TIME - 1\<close> ticks, \<open>LATCHING_TIME\<close> consecutive ticks in all, and clear after
  the tick that follows them. The samples \<open>ps\<close> of the later ticks are arbitrary, and so
  is everything else in \<open>g\<close>, the pedal included.
\<close>

theorem pulse_width:
  assumes "wf g" and "\<not> pulse_pending g" and "pulse_pending (ISR g p)"
  shows "(length ps < unat LATCHING_TIME \<longrightarrow> pulse_pending (run (ISR g p) ps))
       \<and> (length ps = unat LATCHING_TIME \<longrightarrow> \<not> pulse_pending (run (ISR g p) ps))"
proof -
  have wf': "wf (ISR g p)" "wf (run (ISR g p) ps)"
    using assms(1) by (simp_all add: wf_ISR wf_run)
  have left: "pulse_left (ISR g p) = 3"
    by (rule fresh_arm[OF assms])
  have "length ps \<le> 3 \<Longrightarrow> pulse_left (run (ISR g p) ps) = 3 - length ps"
    using pulse_countdown[OF wf'(1), of ps] left by simp
  then show ?thesis
    by (auto simp add: pulse_left_pending[OF wf'(2)] LATCHING_TIME_def)
qed

lemma run_press:
  "ISR init 0 = \<lparr>state = 26, brightness_control = 1, brighness_up = 1,
     pulse_counter = 1, intr_count = 0, TCNT0 = 0\<rparr>"
  by (simp add: init_def eval_defs)

lemma init_not_pending: "\<not> pulse_pending init"
  by (simp add: init_def pulse_pending_def flag_def)

theorem pulse_width_witness:
  "pulse_pending (run (ISR init 0) []) \<and> pulse_pending (run (ISR init 0) [0])
   \<and> pulse_pending (run (ISR init 0) [4, 0]) \<and> \<not> pulse_pending (run (ISR init 0) [4, 0, 4])"
proof -
  have a: "pulse_pending (ISR init 0)"
    unfolding run_press by (simp add: pulse_pending_def flag_def SP_def)
  show ?thesis
    using pulse_width[OF wf_init init_not_pending a, of "[]"]
      pulse_width[OF wf_init init_not_pending a, of "[0]"]
      pulse_width[OF wf_init init_not_pending a, of "[4, 0]"]
      pulse_width[OF wf_init init_not_pending a, of "[4, 0, 4]"]
    by (simp add: LATCHING_TIME_def)
qed

text \<open>
  C9. A pulse is armed at the tick with sample \<open>p\<close>, and armed again at a later tick
  \<open>q\<close> while the counter is not 0. The window is not restarted: after every run \<open>rs\<close>
  of ticks that contains the second arming, the counter stands at one more than the
  number of ticks since the first arming, and flag and counter are cleared on the tick
  that finds the counter at \<open>LATCHING_TIME\<close>, the same tick as without the second
  arming.
\<close>

theorem rearm_keeps_window:
  assumes "wf g" and "\<not> pulse_pending g" and "arms g p"
    and "arms (run (ISR g p) ps) q" and "rs = ps @ q # qs"
  shows "(length ps < unat LATCHING_TIME \<longrightarrow> pulse_counter (run (ISR g p) ps) \<noteq> 0)
       \<and> (length rs < unat LATCHING_TIME \<longrightarrow>
            pulse_pending (run (ISR g p) rs)
            \<and> unat (pulse_counter (run (ISR g p) rs)) = 1 + length rs)
       \<and> (length rs = unat LATCHING_TIME \<longrightarrow>
            \<not> pulse_pending (run (ISR g p) rs) \<and> pulse_counter (run (ISR g p) rs) = 0)"
proof -
  have wf': "wf (ISR g p)" "\<And>xs. wf (run (ISR g p) xs)"
    using assms(1) by (simp_all add: wf_ISR wf_run)
  from assms(1,2) have "pulse_counter g = 0"
    by (simp add: wf_pulse_counter(3))
  with assms(1,3) have left: "pulse_left (ISR g p) = 3"
    by (simp add: pulse_left_ISR)
  have count: "length xs \<le> 3 \<Longrightarrow> pulse_left (run (ISR g p) xs) = 3 - length xs" for xs
    using pulse_countdown[OF wf'(1), of xs] left by simp
  have "length ps < unat LATCHING_TIME \<longrightarrow> pulse_counter (run (ISR g p) ps) \<noteq> 0"
    using count[of ps] by (auto simp add: pulse_left_def LATCHING_TIME_def)
  moreover have "length rs < unat LATCHING_TIME \<longrightarrow>
           pulse_pending (run (ISR g p) rs)
           \<and> unat (pulse_counter (run (ISR g p) rs)) = 1 + length rs"
    using count[of rs] pulse_left_counter[OF wf'(2), of rs]
    by (auto simp add: pulse_left_pending[OF wf'(2)] LATCHING_TIME_def)
  moreover have "length rs = unat LATCHING_TIME \<longrightarrow>
           \<not> pulse_pending (run (ISR g p) rs) \<and> pulse_counter (run (ISR g p) rs) = 0"
    using count[of rs] pulse_left_zero[OF wf'(2), of rs]
    by (auto simp add: wf_pulse_counter(3)[OF wf'(2)] LATCHING_TIME_def)
  ultimately show ?thesis
    by blast
qed

lemma run_press_release:
  "run (ISR init 0) [4] = \<lparr>state = 22, brightness_control = 2, brighness_up = 1,
     pulse_counter = 2, intr_count = 1, TCNT0 = 0\<rparr>"
  unfolding run_press by (simp add: eval_defs)

theorem rearm_keeps_window_witness:
  "arms init 0 \<and> arms (run (ISR init 0) [4]) 0
   \<and> pulse_counter (run (ISR init 0) [4]) \<noteq> 0
   \<and> \<not> pulse_pending (run (ISR init 0) [4, 0, 4])
   \<and> pulse_counter (run (ISR init 0) [4, 0, 4]) = 0"
proof -
  have a: "arms init 0"
    by (simp add: arms_def rising_def samples switch_pressed_def init_def flag_def)
  have b: "arms (run (ISR init 0) [4]) 0"
    unfolding run_press_release
    by (simp add: arms_def rising_def samples switch_pressed_def flag_def SS_def)
  show ?thesis
    using a b rearm_keeps_window[OF wf_init init_not_pending a b, of "[4, 0, 4]" "[4]"]
    by (simp add: LATCHING_TIME_def)
qed

text \<open>
  C10. On a tick without an edge (the sample equals the switch state bit left by the
  previous tick) the switching logic, lines 61 to 97, leaves \<open>pedal_on\<close> and
  \<open>pulse_pending\<close> as they are, and the handler as a whole leaves \<open>pedal_on\<close> as it
  is and does not set \<open>pulse_pending\<close>. Its last block does clear \<open>pulse_pending\<close>
  on such a tick, when the counter has reached \<open>LATCHING_TIME\<close>: that is how every
  pulse ends. So \<open>pedal_on\<close> changes, and \<open>pulse_pending\<close> becomes true, on edge
  ticks only.
\<close>

theorem no_edge_frame:
  assumes "pressed p = switch_pressed g"
  shows "pedal_on (fsm p (last_state (momentary_count g))) = pedal_on g
       \<and> pulse_pending (fsm p (last_state (momentary_count g))) = pulse_pending g
       \<and> pedal_on (ISR g p) = pedal_on g
       \<and> pulse_pending (ISR g p) = (pulse_pending g \<and> pulse_counter g <s LATCHING_TIME)
       \<and> (pulse_pending (ISR g p) \<longrightarrow> pulse_pending g)"
proof -
  have "pedal_on (fsm p (last_state (momentary_count g))) = pedal_on g"
    "pulse_pending (fsm p (last_state (momentary_count g))) = pulse_pending g"
    using assms by (auto simp add: obs_defs block_simps)
  then show ?thesis
    using assms by (auto simp add: ISR_pedal_on ISR_pulse_pending edge_defs)
qed

lemma run_hold_3:
  "run init [0, 0, 0] = \<lparr>state = 30, brightness_control = 3, brighness_up = 1,
     pulse_counter = 3, intr_count = 2, TCNT0 = 0\<rparr>"
  by (simp add: init_def eval_defs)

lemma run_hold_4:
  "ISR (run init [0, 0, 0]) 0 = \<lparr>state = 14, brightness_control = 4, brighness_up = 1,
     pulse_counter = 0, intr_count = 3, TCNT0 = 0\<rparr>"
  unfolding run_hold_3 by (simp add: eval_defs)

theorem no_edge_frame_witness:
  "pressed 0 = switch_pressed (run init [0, 0, 0])
   \<and> pedal_on (ISR (run init [0, 0, 0]) 0) = pedal_on (run init [0, 0, 0])
   \<and> \<not> pulse_pending (ISR (run init [0, 0, 0]) 0)"
proof -
  have a: "pressed 0 = switch_pressed (run init [0, 0, 0])"
    unfolding run_hold_3 by (simp add: samples switch_pressed_def flag_def SS_def)
  have "\<not> pulse_counter (run init [0, 0, 0]) <s LATCHING_TIME"
    unfolding run_hold_3 by (simp add: sless_values)
  with a no_edge_frame[OF a] show ?thesis
    by simp
qed

text \<open>
  The claim as it stands fails on the fourth tick of a press held from startup: no edge,
  and \<open>pulse_pending\<close> goes from true to false.
\<close>

theorem no_edge_pulse_clears:
  "pressed 0 = switch_pressed (run init [0, 0, 0])
   \<and> pulse_pending (run init [0, 0, 0])
   \<and> \<not> pulse_pending (ISR (run init [0, 0, 0]) 0)"
  unfolding run_hold_4 unfolding run_hold_3
  by (simp add: samples switch_pressed_def pulse_pending_def flag_def SS_def SP_def)

section \<open>The hold counter\<close>

text \<open>
  C4. The handler counts \<open>intr_count\<close> up on every tick, whether the switch is pressed
  or not. The counter goes back to 0 on the tick that finds it at \<open>MOMENTARY_DELAY\<close>,
  where lines 62 and 63 set the timer state bit and clear the counter together, and on
  a rising edge that turns the pedal on (line 80). Under the invariant the increment
  does not wrap.
\<close>

theorem intr_count_tick:
  "intr_count (ISR g p) =
     (if press_on g p \<or> intr_count g = MOMENTARY_DELAY then 0 else intr_count g + 1)
   \<and> (intr_count g = MOMENTARY_DELAY \<longrightarrow>
        hold_timer_expired (momentary_count g) \<and> intr_count (momentary_count g) = 0
        \<and> (\<not> press_on g p \<longrightarrow> hold_timer_expired (ISR g p)))
   \<and> (wf g \<and> \<not> press_on g p \<and> intr_count g \<noteq> MOMENTARY_DELAY \<longrightarrow>
        unat (intr_count (ISR g p)) = unat (intr_count g) + 1)"
proof -
  have "intr_count g = MOMENTARY_DELAY \<longrightarrow>
        hold_timer_expired (momentary_count g) \<and> intr_count (momentary_count g) = 0"
    by (simp add: hold_timer_expired_def momentary_count_flags momentary_count_fields)
  moreover have "intr_count g = MOMENTARY_DELAY \<longrightarrow> \<not> press_on g p \<longrightarrow>
        hold_timer_expired (ISR g p)"
    by (simp add: ISR_hold_timer_expired expired_now_def)
  moreover have "wf g \<and> \<not> press_on g p \<and> intr_count g \<noteq> MOMENTARY_DELAY \<longrightarrow>
        unat (intr_count (ISR g p)) = unat (intr_count g) + 1"
    by (simp add: ISR_intr_count wf_def MOMENTARY_DELAY_def unat_intr_count_Suc)
  ultimately show ?thesis
    by (simp add: ISR_intr_count)
qed

lemma init_released: "\<not> press_on init 4" "\<not> rising init 4" "\<not> falling init 4"
  by (simp_all add: press_on_def rising_def falling_def samples switch_pressed_def init_def
      flag_def)

lemma run_release:
  "ISR init 4 = \<lparr>state = 0, brightness_control = 1, brighness_up = 1,
     pulse_counter = 0, intr_count = 1, TCNT0 = 0\<rparr>"
  by (simp add: init_def eval_defs)

theorem intr_count_tick_witness:
  "\<not> pressed 4 \<and> wf init \<and> unat (intr_count (ISR init 4)) = unat (intr_count init) + 1
   \<and> intr_count (init\<lparr>intr_count := 400\<rparr>) = MOMENTARY_DELAY
   \<and> intr_count (ISR (init\<lparr>intr_count := 400\<rparr>) 4) = 0
   \<and> hold_timer_expired (ISR (init\<lparr>intr_count := 400\<rparr>) 4)"
proof -
  have a: "intr_count init \<noteq> MOMENTARY_DELAY"
    by (simp add: init_def MOMENTARY_DELAY_def)
  have b: "intr_count (init\<lparr>intr_count := 400\<rparr>) = MOMENTARY_DELAY"
    by (simp add: MOMENTARY_DELAY_def)
  have c: "\<not> press_on (init\<lparr>intr_count := 400\<rparr>) 4"
    by (simp add: press_on_def rising_def samples)
  from intr_count_tick[of init 4] a init_released(1) wf_init
  have "unat (intr_count (ISR init 4)) = unat (intr_count init) + 1"
    by blast
  moreover from intr_count_tick[of "init\<lparr>intr_count := 400\<rparr>" 4] b c
  have "intr_count (ISR (init\<lparr>intr_count := 400\<rparr>) 4) = 0
      \<and> hold_timer_expired (ISR (init\<lparr>intr_count := 400\<rparr>) 4)"
    by presburger
  ultimately show ?thesis
    using b wf_init samples(2) by blast
qed

text \<open>
  The first tick after startup, with the switch released, leaves the counter at 1.
\<close>

theorem released_tick_counts:
  "\<not> pressed 4 \<and> intr_count (ISR init 4) \<noteq> 0"
  unfolding run_release by (simp add: samples)

section \<open>The brightness ramp\<close>

text \<open>
  C7. On every tick but a rising edge that turns the pedal on, the next brightness and
  direction are determined by the current brightness and direction alone: two ticks
  that agree on these agree on their successors, whatever the samples and the other
  globals. A rising edge that turns the pedal on sets the brightness to 0 first
  (line 83), so that the tick ends at brightness 1 when the ramp is rising and at 0
  with the direction turned to rising when it is falling.
\<close>

theorem ramp_step:
  "(brightness_control g = brightness_control h \<and> brighness_up g = brighness_up h
      \<and> \<not> press_on g p \<and> \<not> press_on h q \<longrightarrow>
    brightness_control (ISR g p) = brightness_control (ISR h q)
      \<and> brighness_up (ISR g p) = brighness_up (ISR h q))
   \<and> (press_on g p \<longrightarrow>
        brightness_control (ISR g p) = (if brighness_up g \<noteq> 0 then 1 else 0)
        \<and> brighness_up (ISR g p) = (if brighness_up g \<noteq> 0 then brighness_up g else 1))"
proof -
  have "brightness_control (ISR g p) = brightness_control (ISR h q)
      \<and> brighness_up (ISR g p) = brighness_up (ISR h q)"
    if "brightness_control g = brightness_control h" "brighness_up g = brighness_up h"
      "\<not> press_on g p" "\<not> press_on h q"
    using shimmer_cong[OF that(1,2)] that(3,4) by (simp add: ISR_brightness)
  moreover have "brightness_control (ISR g p) = (if brighness_up g \<noteq> 0 then 1 else 0)
        \<and> brighness_up (ISR g p) = (if brighness_up g \<noteq> 0 then brighness_up g else 1)"
    if "press_on g p"
    using that by (simp add: ISR_brightness shimmer_def)
  ultimately show ?thesis
    by blast
qed

lemma run_release_2:
  "run init [4, 4] = \<lparr>state = 0, brightness_control = 2, brighness_up = 1,
     pulse_counter = 0, intr_count = 2, TCNT0 = 0\<rparr>"
  by (simp add: init_def eval_defs)

lemma run_hold_2:
  "run init [0, 0] = \<lparr>state = 30, brightness_control = 2, brighness_up = 1,
     pulse_counter = 2, intr_count = 1, TCNT0 = 0\<rparr>"
  by (simp add: init_def eval_defs)

theorem ramp_step_witness:
  "\<not> switch_pressed (run init [4, 4]) \<and> \<not> pedal_on (run init [4, 4])
   \<and> switch_pressed (run init [0, 0]) \<and> pedal_on (run init [0, 0])
   \<and> brightness_control (ISR (run init [4, 4]) 4) = brightness_control (ISR (run init [0, 0]) 4)
   \<and> brighness_up (ISR (run init [4, 4]) 4) = brighness_up (ISR (run init [0, 0]) 4)
   \<and> press_on (run init [4, 4]) 0 \<and> brightness_control (ISR (run init [4, 4]) 0) = 1"
proof -
  have a: "\<not> switch_pressed (run init [4, 4])" "\<not> pedal_on (run init [4, 4])"
    "brightness_control (run init [4, 4]) = 2" "brighness_up (run init [4, 4]) = 1"
    unfolding run_release_2 by (simp_all add: switch_pressed_def pedal_on_def flag_def)
  have b: "switch_pressed (run init [0, 0])" "pedal_on (run init [0, 0])"
    "brightness_control (run init [0, 0]) = 2" "brighness_up (run init [0, 0]) = 1"
    unfolding run_hold_2 by (simp_all add: switch_pressed_def pedal_on_def flag_def SS_def PO_def)
  have c: "\<not> press_on (run init [4, 4]) 4" "\<not> press_on (run init [0, 0]) 4"
    "press_on (run init [4, 4]) 0"
    using a b by (simp_all add: press_on_def rising_def samples)
  show ?thesis
    using ramp_step[of "run init [4, 4]" "run init [0, 0]" 4 4]
      ramp_step[of "run init [4, 4]" _ 0] a b c
    by simp
qed

text \<open>
  The claim as it stands fails two ticks after startup: from the same brightness 2 and
  rising direction, a released sample leads to brightness 3 and a pressed one to 1.
\<close>

theorem ramp_step_depends_on_switch:
  "brightness_control (ISR (run init [4, 4]) 4) = 3
   \<and> brightness_control (ISR (run init [4, 4]) 0) = 1"
  unfolding run_release_2 by (simp add: eval_defs)

section \<open>The main loop\<close>

lemma pin_lt: "PB1 < 8" "PB3 < 8" "PB4 < 8" "PB5 < 8"
  and pin_neq: "PB1 \<noteq> PB3" "PB1 \<noteq> PB4" "PB1 \<noteq> PB5" "PB3 \<noteq> PB4" "PB3 \<noteq> PB5"
    "PB4 \<noteq> PB5"
  by (simp_all add: PB1_def PB3_def PB4_def PB5_def)

lemma latch_out_PORTB:
  "bit (PORTB (latch_out g out)) n =
     (if n = PB4 then pulse_counter g \<noteq> 0 else bit (PORTB out) n)"
  by (auto simp add: latch_out_def bit_simps pin_lt dest: bit_imp_le_length)

lemma pedal_out_PORTB:
  "bit (PORTB (pedal_out g out)) n =
     (if n = PB3 \<or> n = PB1 then flag (state g) PO
      else if n = PB5 then \<not> flag (state g) PO
      else bit (PORTB out) n)"
  using pin_neq
  by (auto simp add: pedal_out_def Let_def bit_simps pin_lt dest: bit_imp_le_length)

lemma main_loop_PORTB:
  "bit (PORTB (main_loop g out)) n =
     (if n = PB4 then pulse_counter g \<noteq> 0
      else if n = PB3 \<or> n = PB1 then flag (state g) PO
      else if n = PB5 then \<not> flag (state g) PO
      else bit (PORTB out) n)"
  by (simp add: main_loop_def latch_out_PORTB pedal_out_PORTB)

lemma main_loop_OCR0A:
  "OCR0A (main_loop g out) =
     (if flag (state g) PO
      then (if flag (state g) SS then ucast (brightness_control g) else 255)
      else 0)"
  by (simp add: main_loop_def latch_out_def pedal_out_def Let_def)

lemma unat_low_byte: "(w :: 16 word) \<le> 254 \<Longrightarrow> unat (ucast w :: 8 word) = unat w"
  by (simp add: unsigned_ucast_eq word_le_nat_alt take_bit_nat_eq_self)

text \<open>
  C8. One iteration of the main loop on a snapshot \<open>g\<close> of the globals between two
  ticks. With the pedal on, pins PB3 (active-high relay) and PB1 (static LED) are high
  and PB5 (active-low relay) is low, and the PWM register holds the current brightness
  when the switch state bit is set and 255 otherwise. With the pedal off, PB3 and PB1
  are low, PB5 is high and the PWM register is 0. Pin PB4 (latching relay) is high
  exactly when \<open>pulse_pending\<close> is set.
\<close>

theorem main_loop_outputs:
  assumes "wf g"
  shows "(if pedal_on g
          then bit (PORTB (main_loop g out)) PB3 \<and> bit (PORTB (main_loop g out)) PB1
             \<and> \<not> bit (PORTB (main_loop g out)) PB5
             \<and> (if switch_pressed g
                 then unat (OCR0A (main_loop g out)) = unat (brightness_control g)
                 else OCR0A (main_loop g out) = 255 \<and> OCR0A (main_loop g out) = - 1)
          else \<not> bit (PORTB (main_loop g out)) PB3 \<and> \<not> bit (PORTB (main_loop g out)) PB1
             \<and> bit (PORTB (main_loop g out)) PB5
             \<and> OCR0A (main_loop g out) = 0)
       \<and> bit (PORTB (main_loop g out)) PB4 = pulse_pending g"
proof -
  from assms have "brightness_control g \<le> 254"
    by (simp add: wf_def)
  then have "unat (ucast (brightness_control g) :: 8 word) = unat (brightness_control g)"
    by (rule unat_low_byte)
  then show ?thesis
    by (simp add: main_loop_PORTB main_loop_OCR0A pedal_on_def switch_pressed_def
        wf_pulse_counter(3)[OF assms] pin_neq pin_neq[symmetric])
qed

theorem main_loop_outputs_witness:
  "pedal_on (ISR init 0) \<and> switch_pressed (ISR init 0) \<and> pulse_pending (ISR init 0)
   \<and> bit (PORTB (main_loop (ISR init 0) \<lparr>PORTB = 36, OCR0A = 0\<rparr>)) PB3
   \<and> bit (PORTB (main_loop (ISR init 0) \<lparr>PORTB = 36, OCR0A = 0\<rparr>)) PB1
   \<and> \<not> bit (PORTB (main_loop (ISR init 0) \<lparr>PORTB = 36, OCR0A = 0\<rparr>)) PB5
   \<and> bit (PORTB (main_loop (ISR init 0) \<lparr>PORTB = 36, OCR0A = 0\<rparr>)) PB4
   \<and> unat (OCR0A (main_loop (ISR init 0) \<lparr>PORTB = 36, OCR0A = 0\<rparr>)) = 1
   \<and> \<not> pedal_on init \<and> \<not> pulse_pending init
   \<and> \<not> bit (PORTB (main_loop init \<lparr>PORTB = 36, OCR0A = 0\<rparr>)) PB3
   \<and> \<not> bit (PORTB (main_loop init \<lparr>PORTB = 36, OCR0A = 0\<rparr>)) PB1
   \<and> bit (PORTB (main_loop init \<lparr>PORTB = 36, OCR0A = 0\<rparr>)) PB5
   \<and> \<not> bit (PORTB (main_loop init \<lparr>PORTB = 36, OCR0A = 0\<rparr>)) PB4
   \<and> OCR0A (main_loop init \<lparr>PORTB = 36, OCR0A = 0\<rparr>) = 0"
proof -
  have a: "pedal_on (ISR init 0)" "switch_pressed (ISR init 0)" "pulse_pending (ISR init 0)"
    "brightness_control (ISR init 0) = 1"
    unfolding run_press
    by (simp_all add: pedal_on_def switch_pressed_def pulse_pending_def flag_def PO_def SS_def
        SP_def)
  have b: "\<not> pedal_on init" "\<not> pulse_pending init"
    by (simp_all add: init_def pedal_on_def pulse_pending_def flag_def)
  show ?thesis
    using main_loop_outputs[OF wf_ISR[OF wf_init], of 0 "\<lparr>PORTB = 36, OCR0A = 0\<rparr>"]
      main_loop_outputs[OF wf_init, of "\<lparr>PORTB = 36, OCR0A = 0\<rparr>"] a b
    by simp
qed

section \<open>The brightness triangle\<close>

lemma unat_inc: "(w :: 16 word) < 254 \<Longrightarrow> unat (w + 1) = unat w + 1"
  by (simp add: unat_word_ariths word_less_nat_alt)

lemma unat_dec: "10 < (w :: 16 word) \<Longrightarrow> unat (w - 1) = unat w - 1"
  by (simp add: unat_minus_one word_less_nat_alt unat_gt_0[symmetric])

lemma shimmer_phase:
  assumes "brightness_control g \<le> 254" "10 \<le> brightness_control g"
    "brighness_up g = 0 \<or> brighness_up g = 1"
  shows "phase (shimmer g) = (phase g + 1) mod 490"
    and "10 \<le> brightness_control (shimmer g)"
proof -
  from assms have b: "10 \<le> unat (brightness_control g)" "unat (brightness_control g) \<le> 254"
    by (simp_all add: word_le_nat_alt)
  show "phase (shimmer g) = (phase g + 1) mod 490"
    using assms(3) b 
    by (auto simp add: phase_def shimmer_def unat_inc unat_dec word_less_nat_alt)
  show "10 \<le> brightness_control (shimmer g)"
    using assms(3) b 
    by (auto simp add: shimmer_def unat_inc unat_dec word_less_nat_alt word_le_nat_alt)
qed

lemma wf_brightness:
  assumes "wf g"
  shows "brightness_control g \<le> 254" and "brighness_up g = 0 \<or> brighness_up g = 1"
    and "brighness_up g = 0 \<Longrightarrow> 10 \<le> brightness_control g"
  using assms by (auto simp add: wf_def)

lemma brightness_unat:
  assumes "wf g" "10 \<le> brightness_control g"
  shows "10 \<le> unat (brightness_control g)" and "unat (brightness_control g) \<le> 254"
  using assms wf_brightness(1)[OF assms(1)] by (simp_all add: word_le_nat_alt)

lemma phase_lt: "wf g \<Longrightarrow> 10 \<le> brightness_control g \<Longrightarrow> phase g < 490"
  using brightness_unat[of g] by (auto simp add: phase_def)

lemma phase_ISR:
  assumes "wf g" "10 \<le> brightness_control g" "\<not> press_on g p"
  shows "phase (ISR g p) = (phase g + 1) mod 490" and "10 \<le> brightness_control (ISR g p)"
proof -
  have "phase (ISR g p) = phase (shimmer g)"
    using assms(3) by (simp add: phase_def ISR_brightness)
  then show "phase (ISR g p) = (phase g + 1) mod 490"
    using shimmer_phase(1)[OF wf_brightness(1)[OF assms(1)] assms(2) wf_brightness(2)[OF assms(1)]]
    by simp
  show "10 \<le> brightness_control (ISR g p)"
    using shimmer_phase(2)[OF wf_brightness(1)[OF assms(1)] assms(2) wf_brightness(2)[OF assms(1)]]
      assms(3)
    by (simp add: ISR_brightness)
qed

lemma phase_run:
  "wf g \<Longrightarrow> 10 \<le> brightness_control g \<Longrightarrow> quiet g ps \<Longrightarrow>
   phase (run g ps) = (phase g + length ps) mod 490 \<and> 10 \<le> brightness_control (run g ps)"
proof (induction ps arbitrary: g)
  case Nil
  then show ?case
    by (simp add: phase_lt)
next
  case (Cons p ps)
  then have step: "phase (ISR g p) = (phase g + 1) mod 490" "10 \<le> brightness_control (ISR g p)"
    by (simp_all add: phase_ISR)
  from Cons.prems have "wf (ISR g p)" "quiet (ISR g p) ps"
    by (simp_all add: wf_ISR)
  from Cons.IH[OF this(1) step(2) this(2)] step(1) show ?case
    by (simp add: mod_simps)
qed

lemma phase_inj:
  assumes "wf g" "wf h" "10 \<le> brightness_control g" "10 \<le> brightness_control h"
  shows "(phase g = phase h) =
     (brightness_control g = brightness_control h \<and> brighness_up g = brighness_up h)"
proof -
  have "10 \<le> unat (brightness_control g)" "unat (brightness_control g) \<le> 254"
    "10 \<le> unat (brightness_control h)" "unat (brightness_control h) \<le> 254"
    using assms wf_brightness(1)[OF assms(1)] wf_brightness(1)[OF assms(2)]
    by (simp_all add: word_le_nat_alt)
  then show ?thesis
    using wf_brightness(2)[OF assms(1)] wf_brightness(2)[OF assms(2)]
    by (auto simp add: phase_def word_unat_eq_iff)
qed

lemma mod_490_period: "a < 490 \<Longrightarrow> ((a + n) mod 490 = a) = (490 dvd (n :: nat))"
  using mod_eq_dvd_iff_nat[of a "a + n" 490] by simp

lemma period_490:
  assumes "wf g" "10 \<le> brightness_control g" "quiet g ps"
  shows "(brightness_control (run g ps) = brightness_control g
          \<and> brighness_up (run g ps) = brighness_up g) = (490 dvd length ps)"
proof -
  have run: "phase (run g ps) = (phase g + length ps) mod 490" "10 \<le> brightness_control (run g ps)"
    using phase_run[OF assms] by simp_all
  have "(phase (run g ps) = phase g) = (490 dvd length ps)"
    unfolding run(1) by (rule mod_490_period[OF phase_lt[OF assms(1,2)]])
  then show ?thesis
    unfolding phase_inj[OF wf_run[OF assms(1)] assms(1) run(2) assms(2)] .
qed

lemma quiet_released: "\<forall>p\<in>set ps. \<not> pressed p \<Longrightarrow> quiet g ps"
  by (induction ps arbitrary: g) (simp_all add: press_on_def rising_def)

lemma reversal:
  assumes "wf g" "(brighness_up (ISR g p) \<noteq> 0) \<noteq> (brighness_up g \<noteq> 0)"
  shows "brightness_control (ISR g p) = 254 \<or> brightness_control (ISR g p) = 10
       \<or> (press_on g p \<and> brightness_control (ISR g p) = 0)"
proof (cases "press_on g p")
  case True
  with assms(2) show ?thesis
    by (auto simp add: ISR_brightness shimmer_def split: if_splits)
next
  case False
  from wf_brightness[OF assms(1)] assms(2) False show ?thesis
    by (auto simp add: ISR_brightness shimmer_def split: if_splits)
qed

text \<open>
  C6. From startup the brightness never exceeds 254, but it starts at 0 and line 83
  sets it back to 0 on every rising edge that turns the pedal on, so it is below 10 for
  the first ticks after each of these. From a state with brightness at least 10 it stays
  between 10 and 254 as long as the run has no such press (\<open>quiet\<close>). A tick reverses
  the direction only when it leaves the brightness at 254 or at 10, or at 0 on the tick
  of such a press. Over a run without such a press, brightness and direction return to
  their values exactly after the multiples of \<open>2 * (254 - 10) + 2 = 490\<close> ticks: the
  ramp spends one tick at each bound where only the direction changes.
\<close>

theorem brightness_triangle:
  "brightness_control (run init ps) \<le> 254
   \<and> (wf g \<and> 10 \<le> brightness_control g \<and> quiet g ps \<longrightarrow>
        10 \<le> brightness_control (run g ps) \<and> brightness_control (run g ps) \<le> 254)
   \<and> (wf g \<and> (brighness_up (ISR g p) \<noteq> 0) \<noteq> (brighness_up g \<noteq> 0) \<longrightarrow>
        brightness_control (ISR g p) = 254 \<or> brightness_control (ISR g p) = 10
        \<or> (press_on g p \<and> brightness_control (ISR g p) = 0))
   \<and> (wf g \<and> 10 \<le> brightness_control g \<and> quiet g ps \<longrightarrow>
        (brightness_control (run g ps) = brightness_control g
           \<and> brighness_up (run g ps) = brighness_up g)
        = ((2 * (254 - 10) + 2) dvd length ps))"
proof -
  have "brightness_control (run init ps) \<le> 254"
    by (rule wf_brightness(1)[OF wf_run[OF wf_init]])
  moreover have "10 \<le> brightness_control (run g ps) \<and> brightness_control (run g ps) \<le> 254"
    if "wf g" "10 \<le> brightness_control g" "quiet g ps"
    using phase_run[OF that] wf_brightness(1)[OF wf_run[OF that(1)], of ps] by simp
  moreover have "(brightness_control (run g ps) = brightness_control g
           \<and> brighness_up (run g ps) = brighness_up g)
        = ((2 * (254 - 10) + 2) dvd length ps)"
    if "wf g" "10 \<le> brightness_control g" "quiet g ps"
    using period_490[OF that] by simp
  ultimately show ?thesis
    using reversal[of g p] by blast
qed

lemma warm_up:
  "brightness_control (run init (replicate 10 4)) = 10"
  "brighness_up (run init (replicate 10 4)) = 1"
  by code_simp+

lemma wf_at_254: "wf (init\<lparr>brightness_control := 254\<rparr>)"
  by (simp add: wf_def init_def pulse_pending_def flag_def)

lemma tick_at_254:
  "ISR (init\<lparr>brightness_control := 254\<rparr>) 4 = \<lparr>state = 0, brightness_control = 254,
     brighness_up = 0, pulse_counter = 0, intr_count = 1, TCNT0 = 0\<rparr>"
  by (simp add: init_def eval_defs)

theorem brightness_triangle_witness:
  "wf (run init (replicate 10 4)) \<and> 10 \<le> brightness_control (run init (replicate 10 4))
   \<and> quiet (run init (replicate 10 4)) (replicate 490 4)
   \<and> brightness_control (run (run init (replicate 10 4)) (replicate 490 4)) = 10
   \<and> brighness_up (run (run init (replicate 10 4)) (replicate 490 4)) = 1
   \<and> wf (init\<lparr>brightness_control := 254\<rparr>)
   \<and> brighness_up (ISR (init\<lparr>brightness_control := 254\<rparr>) 4) = 0
   \<and> brightness_control (ISR (init\<lparr>brightness_control := 254\<rparr>) 4) = 254"
proof -
  let ?g = "run init (replicate 10 4)"
  have w: "wf ?g"
    by (rule wf_run[OF wf_init])
  have q: "quiet ?g (replicate 490 4)"
    by (rule quiet_released) (simp add: samples)
  have b: "10 \<le> brightness_control ?g"
    by (simp add: warm_up)
  have "brightness_control (run ?g (replicate 490 4)) = brightness_control ?g
        \<and> brighness_up (run ?g (replicate 490 4)) = brighness_up ?g"
    using brightness_triangle[of "replicate 490 4" ?g] w q b
    by simp
  then show ?thesis
    using w q b wf_at_254 unfolding tick_at_254 by (simp add: warm_up)
qed

text \<open>
  The claim as it stands fails on the first tick after startup, which leaves the
  brightness at 1. With the switch never pressed the brightness is 10 after 10 ticks
  and 11, not 10, another 488 ticks later.
\<close>

theorem brightness_below_10:
  "brightness_control (run init [4]) = 1
   \<and> brightness_control (run init (replicate 10 4)) = 10
   \<and> brightness_control (run (run init (replicate 10 4)) (replicate 488 4)) = 11"
proof -
  let ?g = "run init (replicate 10 4)" and ?ps = "replicate 488 (4 :: 8 word)"
  have w: "wf ?g"
    by (rule wf_run[OF wf_init])
  have q: "quiet ?g ?ps"
    by (rule quiet_released) (simp add: samples)
  have b: "10 \<le> brightness_control ?g"
    by (simp add: warm_up)
  have "phase ?g = 0"
    by (simp add: phase_def warm_up)
  with phase_run[OF w b q] have ph: "phase (run ?g ?ps) = 488"
    by simp
  have "unat (brightness_control (run ?g ?ps)) \<le> 254"
    using wf_brightness(1)[OF wf_run[OF w], of ?ps] by (simp add: word_le_nat_alt)
  with ph have "unat (brightness_control (run ?g ?ps)) = 11"
    by (auto simp add: phase_def split: if_splits)
  then have "brightness_control (run ?g ?ps) = 11"
    by (simp add: word_unat_eq_iff)
  then show ?thesis
    using run_release by (simp add: warm_up)
qed

section \<open>Holding the switch\<close>

lemma held_switch_pressed:
  "ps \<noteq> [] \<Longrightarrow> \<forall>p\<in>set ps. pressed p \<Longrightarrow> switch_pressed (run g ps)"
proof (induction ps arbitrary: g)
  case Nil
  then show ?case by simp
next
  case (Cons p ps)
  then show ?case
    by (cases ps) (simp_all add: ISR_switch_pressed)
qed

lemma hold_step:
  assumes "held g n" "pressed p"
  shows "held (ISR g p) (Suc n)"
proof -
  from assms have g: "switch_pressed g" "pedal_on g"
    and edges: "\<not> rising g p" "\<not> falling g p" "\<not> press_on g p"
    by (simp_all add: held_def edge_defs)
  show ?thesis
  proof (cases "hold_timer_expired g")
    case True
    with assms g edges show ?thesis
      by (simp add: held_def ISR_simps expired_now_def)
  next
    case False
    with assms(1) have n: "unat (intr_count g) = n" "n \<le> 400"
      by (simp_all add: held_def MOMENTARY_DELAY_def)
    show ?thesis
    proof (cases "intr_count g = 400")
      case True
      with n have "n = 400"
        by simp
      with True assms g edges show ?thesis
        by (simp add: held_def ISR_simps expired_now_def MOMENTARY_DELAY_def)
    next
      case neq: False
      with n have "n < 400"
        by (auto simp add: intr_count_eq_400)
      with neq n False assms g edges show ?thesis
        by (simp add: held_def ISR_simps expired_now_def MOMENTARY_DELAY_def
            unat_intr_count_Suc)
    qed
  qed
qed

lemma hold_run: "held g n \<Longrightarrow> \<forall>p\<in>set ps. pressed p \<Longrightarrow> held (run g ps) (n + length ps)"
proof (induction ps arbitrary: g n)
  case Nil
  then show ?case by simp
next
  case (Cons p ps)
  then have "held (ISR g p) (Suc n)"
    by (simp add: hold_step)
  from Cons.IH[OF this] Cons.prems(2) show ?case
    by simp
qed

lemma press_from_idle:
  assumes "\<not> switch_pressed g" "\<not> pedal_on g" "pressed p"
  shows "held (ISR g p) 0"
  using assms by (simp add: held_def ISR_simps edge_defs)

lemma hold_from_idle:
  assumes "\<not> switch_pressed g" "\<not> pedal_on g" "\<forall>p\<in>set ps. pressed p" "ps \<noteq> []"
  shows "switch_pressed (run g ps)" "pedal_on (run g ps)"
    "hold_timer_expired (run g ps) = (402 \<le> length ps)"
    "expired_now (run g ps) = (401 \<le> length ps)"
proof -
  from assms(4) obtain p qs where ps: "ps = p # qs"
    by (cases ps) simp_all
  with assms(3) have p: "pressed p" and qs: "\<forall>p\<in>set qs. pressed p"
    by simp_all
  from hold_run[OF press_from_idle[OF assms(1,2) p] qs]
  have run: "held (run g ps) (length qs)"
    by (simp add: ps)
  then show "switch_pressed (run g ps)" "pedal_on (run g ps)"
    by (simp_all add: held_def)
  from run show "hold_timer_expired (run g ps) = (402 \<le> length ps)"
    by (auto simp add: ps held_def MOMENTARY_DELAY_def split: if_splits)
  from run show "expired_now (run g ps) = (401 \<le> length ps)"
    by (auto simp add: ps held_def expired_now_def MOMENTARY_DELAY_def intr_count_eq_400
        split: if_splits)
qed

text \<open>No tick arms the pulse while the switch stays pressed, so a pulse runs out.\<close>

lemma held_pulse_left:
  "wf g \<Longrightarrow> switch_pressed g \<Longrightarrow> \<forall>p\<in>set ps. pressed p \<Longrightarrow>
   pulse_left (run g ps) = pulse_left g - length ps"
proof (induction ps arbitrary: g)
  case Nil
  then show ?case by simp
next
  case (Cons p ps)
  then have "\<not> arms g p"
    by (simp add: edge_defs)
  with Cons.prems(1)
  have "pulse_left (ISR g p) = (if pulse_counter g = 0 then 0 else pulse_left g - 1)"
    by (simp add: pulse_left_ISR)
  then have "pulse_left (ISR g p) = pulse_left g - 1"
    by (simp add: pulse_left_def)
  with Cons.IH[of "ISR g p"] Cons.prems show ?case
    by (simp add: wf_ISR ISR_switch_pressed)
qed

lemma pulse_left_le: "wf g \<Longrightarrow> pulse_left g \<le> 3"
  using wf_pulse_counter(1)[of g] by (auto simp add: pulse_left_def)

lemma held_pulse_over:
  assumes "wf g" "\<forall>p\<in>set ps. pressed p" "4 \<le> length ps"
  shows "pulse_counter (run g ps) = 0" "\<not> pulse_pending (run g ps)"
proof -
  from assms(3) obtain p qs where ps: "ps = p # qs"
    by (cases ps) simp_all
  with assms have "wf (ISR g p)" "switch_pressed (ISR g p)" "\<forall>p\<in>set qs. pressed p"
    "3 \<le> length qs"
    by (simp_all add: wf_ISR ISR_switch_pressed)
  from held_pulse_left[OF this(1,2,3)] pulse_left_le[OF this(1)] this(4)
  have "pulse_left (run g ps) = 0"
    by (simp add: ps)
  then show "pulse_counter (run g ps) = 0"
    by (simp add: pulse_left_zero[OF wf_run[OF assms(1)]])
  then show "\<not> pulse_pending (run g ps)"
    by (simp add: wf_pulse_counter(3)[OF wf_run[OF assms(1)]])
qed

text \<open>
  C2. From Idle (switch released, pedal off) the switch is pressed and held for the
  ticks \<open>ps\<close>. The pedal is on from the first of these ticks. The handler compares the
  counter with \<open>MOMENTARY_DELAY\<close> before it increments it and the press sets it to 0, so
  the timer state bit is clear after each of the first \<open>MOMENTARY_DELAY + 1\<close> ticks of
  the hold and set after every later one: it is set by tick \<open>MOMENTARY_DELAY + 1\<close> when
  the press is tick 0. A release after that turns the pedal off and arms the pulse on
  the tick of the release.
\<close>

theorem hold_engages_momentary:
  assumes "wf g" and "\<not> switch_pressed g" and "\<not> pedal_on g"
    and "\<forall>p\<in>set ps. pressed p" and "ps \<noteq> []"
  shows "pedal_on (run g ps)
       \<and> hold_timer_expired (run g ps) = (unat MOMENTARY_DELAY + 2 \<le> length ps)
       \<and> (unat MOMENTARY_DELAY + 2 \<le> length ps \<and> \<not> pressed r \<longrightarrow>
            \<not> pulse_pending (run g ps) \<and> \<not> pedal_on (ISR (run g ps) r)
            \<and> pulse_pending (ISR (run g ps) r))"
proof -
  note hold = hold_from_idle[OF assms(2-5)]
  have "\<not> pulse_pending (run g ps) \<and> \<not> pedal_on (ISR (run g ps) r)
            \<and> pulse_pending (ISR (run g ps) r)"
    if "402 \<le> length ps" "\<not> pressed r"
  proof -
    from that(1) have "4 \<le> length ps"
      by simp
    note over = held_pulse_over[OF assms(1,4) this]
    from hold that have "falling (run g ps) r" "expired_now (run g ps)" "\<not> rising (run g ps) r"
      by (simp_all add: edge_defs)
    with hold(2) over show ?thesis
      by (simp add: ISR_pedal_on ISR_pulse_pending arms_def sless_values)
  qed
  with hold(2,3) show ?thesis
    by (simp add: MOMENTARY_DELAY_def)
qed

lemma init_idle: "\<not> switch_pressed init" "\<not> pedal_on init" "\<not> hold_timer_expired init"
  by (simp_all add: init_def switch_pressed_def pedal_on_def hold_timer_expired_def flag_def)

theorem hold_engages_momentary_witness:
  "pedal_on (run init (replicate 402 0)) \<and> hold_timer_expired (run init (replicate 402 0))
   \<and> \<not> pressed 4 \<and> \<not> pulse_pending (run init (replicate 402 0))
   \<and> \<not> pedal_on (ISR (run init (replicate 402 0)) 4)
   \<and> pulse_pending (ISR (run init (replicate 402 0)) 4)"
  using hold_engages_momentary[OF wf_init init_idle(1,2), of "replicate 402 0" 4]
  by (simp add: samples MOMENTARY_DELAY_def)

text \<open>
  The claim as it stands fails on a press held from startup: the timer state bit is
  clear after 400 and after 401 ticks of the hold and set after 402.
\<close>

theorem hold_not_expired_at_400:
  "\<not> hold_timer_expired (run init (replicate 400 0))
   \<and> \<not> hold_timer_expired (run init (replicate 401 0))
   \<and> hold_timer_expired (run init (replicate 402 0))"
  using hold_from_idle(3)[OF init_idle(1,2), of "replicate 400 0"]
    hold_from_idle(3)[OF init_idle(1,2), of "replicate 401 0"]
    hold_from_idle(3)[OF init_idle(1,2), of "replicate 402 0"]
  by (simp add: samples)

section \<open>The timer state bit during one press\<close>

lemma quiet_held:
  "pedal_on g \<or> switch_pressed g \<Longrightarrow> \<forall>p\<in>set ps. pressed p \<Longrightarrow> quiet g ps"
proof (induction ps arbitrary: g)
  case Nil
  then show ?case by simp
next
  case (Cons p ps)
  from Cons.prems have "\<not> press_on g p" "switch_pressed (ISR g p)"
    by (auto simp add: press_on_def rising_def ISR_switch_pressed)
  with Cons.IH[of "ISR g p"] Cons.prems(2) show ?case
    by simp
qed

lemma expired_stays: "quiet g ps \<Longrightarrow> hold_timer_expired g \<Longrightarrow> hold_timer_expired (run g ps)"
  by (induction ps arbitrary: g) (simp_all add: ISR_hold_timer_expired expired_now_def)

lemma expiry_within:
  "wf g \<Longrightarrow> quiet g ps \<Longrightarrow> 401 \<le> unat (intr_count g) + length ps \<Longrightarrow>
   hold_timer_expired (run g ps)"
proof (induction ps arbitrary: g)
  case Nil
  then show ?case
    by (simp add: wf_def MOMENTARY_DELAY_def)
next
  case (Cons p ps)
  then have q: "\<not> press_on g p" "quiet (ISR g p) ps" and w: "wf (ISR g p)"
    by (simp_all add: wf_ISR)
  show ?case
  proof (cases "intr_count g = 400")
    case True
    with q(1) have "hold_timer_expired (ISR g p)"
      by (simp add: ISR_hold_timer_expired expired_now_def MOMENTARY_DELAY_def)
    with q(2) show ?thesis
      by (simp add: expired_stays)
  next
    case False
    with Cons.prems(1) q(1) have "unat (intr_count (ISR g p)) = Suc (unat (intr_count g))"
      by (simp add: ISR_intr_count MOMENTARY_DELAY_def wf_def unat_intr_count_Suc)
    with Cons.IH[OF w q(2)] Cons.prems(3) show ?thesis
      by simp
  qed
qed

lemma rises_quiet:
  "quiet g ps \<Longrightarrow>
   rises g ps = (if \<not> hold_timer_expired g \<and> hold_timer_expired (run g ps) then 1 else 0)"
proof (induction ps arbitrary: g)
  case Nil
  then show ?case by simp
next
  case (Cons p ps)
  then have q: "\<not> press_on g p" "quiet (ISR g p) ps"
    by simp_all
  show ?case
  proof (cases "hold_timer_expired (ISR g p)")
    case True
    with expired_stays[OF q(2)] Cons.IH[OF q(2)] show ?thesis
      by simp
  next
    case False
    with q(1) have "\<not> hold_timer_expired g"
      by (simp add: ISR_hold_timer_expired expired_now_def)
    with False Cons.IH[OF q(2)] show ?thesis
      by simp
  qed
qed

text \<open>The whole press: \<open>ps\<close> are its ticks, the first one a rising edge.\<close>

lemma rises_press:
  assumes "wf g" "\<not> switch_pressed g" "\<forall>p\<in>set ps. pressed p" "802 \<le> length ps + 2"
  shows "rises g ps = (if pedal_on g \<and> hold_timer_expired g then 0 else 1)"
proof (cases "pedal_on g")
  case True
  with assms(3) have q: "quiet g ps"
    by (simp add: quiet_held)
  from assms(4) have "401 \<le> unat (intr_count g) + length ps"
    by simp
  from expiry_within[OF assms(1) q this] rises_quiet[OF q] True show ?thesis
    by simp
next
  case False
  from assms(4) obtain p qs where ps: "ps = p # qs"
    by (cases ps) simp_all
  with assms(3) have p: "pressed p" and qs: "\<forall>p\<in>set qs. pressed p"
    by simp_all
  from False assms(2) p have first: "\<not> hold_timer_expired (ISR g p)" "switch_pressed (ISR g p)"
    by (simp_all add: ISR_simps edge_defs)
  from first(2) qs have q: "quiet (ISR g p) qs"
    by (simp add: quiet_held)
  from assms(4) have "401 \<le> unat (intr_count (ISR g p)) + length qs"
    by (simp add: ps)
  from expiry_within[OF wf_ISR[OF assms(1)] q this] rises_quiet[OF q] first(1) False
  show ?thesis
    by (simp add: ps)
qed

lemma expired_stays_press:
  assumes "\<forall>p\<in>set ps1. pressed p" "\<forall>p\<in>set ps2. pressed p" "ps1 \<noteq> []"
    "hold_timer_expired (run g ps1)"
  shows "hold_timer_expired (run g (ps1 @ ps2))"
proof -
  have "switch_pressed (run g ps1)"
    by (rule held_switch_pressed[OF assms(3,1)])
  then have "quiet (run g ps1) ps2"
    using assms(2) by (simp add: quiet_held)
  then show ?thesis
    using assms(4) by (simp add: run_append expired_stays)
qed

text \<open>
  C5. One continuous press of \<open>2 * MOMENTARY_DELAY\<close> ticks, beginning with a rising
  edge. The timer state bit goes from 0 to 1 exactly once during the press, unless the
  press begins with the pedal on and the bit already set, where it stays set throughout
  and never goes from 0 to 1: the counter runs while the switch is released too, and
  only a press that turns the pedal on clears the bit. When the press turns the pedal
  on, the one transition is that of tick \<open>MOMENTARY_DELAY + 1\<close> with the press as
  tick 0. In every case the bit, once set after a tick of the press, is set after every
  later tick of it.
\<close>

theorem expires_once_per_press:
  assumes "wf g" and "\<not> switch_pressed g" and "\<forall>p\<in>set ps. pressed p"
    and "length ps = 2 * unat MOMENTARY_DELAY"
  shows "rises g ps = (if pedal_on g \<and> hold_timer_expired g then 0 else 1)
       \<and> (\<not> pedal_on g \<and> ps = ps1 @ ps2 \<and> ps1 \<noteq> [] \<longrightarrow>
            hold_timer_expired (run g ps1) = (unat MOMENTARY_DELAY + 2 \<le> length ps1))
       \<and> (ps = qs1 @ qs2 @ qs3 \<and> qs1 \<noteq> [] \<and> hold_timer_expired (run g qs1) \<longrightarrow>
            hold_timer_expired (run g (qs1 @ qs2)))"
proof -
  from assms(4) have len: "802 \<le> length ps + 2"
    by (simp add: MOMENTARY_DELAY_def)
  have "hold_timer_expired (run g ps1) = (unat MOMENTARY_DELAY + 2 \<le> length ps1)"
    if "\<not> pedal_on g" "ps = ps1 @ ps2" "ps1 \<noteq> []"
  proof -
    from that(2) assms(3) have "\<forall>p\<in>set ps1. pressed p"
      by simp
    from hold_from_idle(3)[OF assms(2) that(1) this that(3)] show ?thesis
      by (simp add: MOMENTARY_DELAY_def)
  qed
  moreover have "hold_timer_expired (run g (qs1 @ qs2))"
    if "ps = qs1 @ qs2 @ qs3" "qs1 \<noteq> []" "hold_timer_expired (run g qs1)"
  proof -
    from that(1) assms(3) have "\<forall>p\<in>set qs1. pressed p" "\<forall>p\<in>set qs2. pressed p"
      by simp_all
    from expired_stays_press[OF this that(2,3)] show ?thesis .
  qed
  ultimately show ?thesis
    using rises_press[OF assms(1-3) len] by blast
qed

theorem expires_once_per_press_witness:
  "rises init (replicate 800 0) = 1
   \<and> \<not> hold_timer_expired (run init (replicate 401 0))
   \<and> hold_timer_expired (run init (replicate 402 0))
   \<and> hold_timer_expired (run init (replicate 402 0 @ replicate 100 0))"
proof -
  have a: "\<forall>p\<in>set (replicate 800 (0 :: 8 word)). pressed p"
    by (simp add: samples)
  have b: "length (replicate 800 (0 :: 8 word)) = 2 * unat MOMENTARY_DELAY"
    by (simp add: MOMENTARY_DELAY_def)
  have c: "replicate 800 (0 :: 8 word) = replicate 401 0 @ replicate 399 0"
    "replicate 800 (0 :: 8 word) = replicate 402 0 @ replicate 398 0"
    "replicate 800 (0 :: 8 word) = replicate 402 0 @ replicate 100 0 @ replicate 298 0"
    by (simp_all flip: replicate_add)
  note inst = expires_once_per_press[OF wf_init init_idle(1) a b]
  from inst[of "replicate 401 0" "replicate 399 0"] c(1) init_idle(2)
  have d: "\<not> hold_timer_expired (run init (replicate 401 0))"
    by (simp add: MOMENTARY_DELAY_def)
  from inst[of "replicate 402 0" "replicate 398 0"] c(2) init_idle(2)
  have e: "hold_timer_expired (run init (replicate 402 0))"
    by (simp add: MOMENTARY_DELAY_def)
  from inst[of _ _ "replicate 402 0" "replicate 100 0" "replicate 298 0"] c(3) e
  have "hold_timer_expired (run init (replicate 402 0 @ replicate 100 0))"
    by simp
  with inst[of "[]" "[]"] d e init_idle(2) show ?thesis
    by simp
qed

lemma released_run:
  "\<not> switch_pressed g \<Longrightarrow> \<forall>p\<in>set ps. \<not> pressed p \<Longrightarrow>
   pedal_on (run g ps) = pedal_on g \<and> \<not> switch_pressed (run g ps)"
proof (induction ps arbitrary: g)
  case Nil
  then show ?case by simp
next
  case (Cons p ps)
  then have "pedal_on (ISR g p) = pedal_on g" "\<not> switch_pressed (ISR g p)"
    by (simp_all add: ISR_simps edge_defs)
  with Cons.IH[of "ISR g p"] Cons.prems(2) show ?case
    by simp
qed

text \<open>
  The claim as it stands fails for a press that begins 401 ticks after a tap from
  startup: the tap has left the pedal on, the counter has run on and set the timer state
  bit while the switch was released, and the bit stays set through the 800 ticks of the
  press.
\<close>

theorem stale_expiry_never_rises:
  "pedal_on (run init ([0, 4] @ replicate 400 4))
   \<and> \<not> switch_pressed (run init ([0, 4] @ replicate 400 4))
   \<and> hold_timer_expired (run init ([0, 4] @ replicate 400 4))
   \<and> rises (run init ([0, 4] @ replicate 400 4)) (replicate 800 0) = 0"
proof -
  let ?h = "run init [0, 4]" and ?g = "run init ([0, 4] @ replicate 400 4)"
  have g: "?g = run ?h (replicate 400 4)"
    by (rule run_append)
  have h: "\<not> switch_pressed ?h" "pedal_on ?h" "unat (intr_count ?h) = 1"
    using run_press_release
    by (simp_all add: switch_pressed_def pedal_on_def flag_def SS_def PO_def)
  have w: "wf ?h"
    by (rule wf_run[OF wf_init])
  have rel: "\<forall>p\<in>set (replicate 400 (4 :: 8 word)). \<not> pressed p"
    by (simp add: samples)
  from released_run[OF h(1) rel] h(2) have po: "pedal_on ?g" "\<not> switch_pressed ?g"
    by (simp_all add: g)
  from expiry_within[OF w quiet_released[OF rel]] h(3) have ts: "hold_timer_expired ?g"
    by (simp add: g)
  have "quiet ?g (replicate 800 0)"
  proof (rule quiet_held)
    show "pedal_on ?g \<or> switch_pressed ?g"
      by (rule disjI1) (rule po(1))
    show "\<forall>p\<in>set (replicate 800 (0 :: 8 word)). pressed p"
      by (simp add: samples)
  qed
  from rises_quiet[OF this] ts have "rises ?g (replicate 800 0) = 0"
    by simp
  with po ts show ?thesis
    by simp
qed

section \<open>The release of a short tap\<close>

lemma held_pedal:
  "switch_pressed g \<Longrightarrow> \<forall>p\<in>set ps. pressed p \<Longrightarrow> pedal_on (run g ps) = pedal_on g"
proof (induction ps arbitrary: g)
  case Nil
  then show ?case by simp
next
  case (Cons p ps)
  then have "pedal_on (ISR g p) = pedal_on g" "switch_pressed (ISR g p)"
    by (simp_all add: ISR_simps edge_defs)
  with Cons.IH[of "ISR g p"] Cons.prems(2) show ?case
    by simp
qed

text \<open>
  The rest of C1 holds in every state: a press on a rising edge flips the pedal, and a
  release that comes up to \<open>MOMENTARY_DELAY\<close> ticks after the press tick neither changes
  the pedal nor executes \<^verbatim>\<open>state |= (1<<SP)\<close>.
\<close>

lemma tap_release:
  assumes "\<not> switch_pressed g" "\<forall>p\<in>set ps. pressed p" "ps \<noteq> []" "length ps \<le> 400"
    "\<not> pressed r"
  shows "pedal_on (run g ps) = (\<not> pedal_on g)"
    and "pedal_on (ISR (run g ps) r) = pedal_on (run g ps)"
    and "\<not> arms (run g ps) r"
proof -
  from assms(3) obtain p qs where ps: "ps = p # qs"
    by (cases ps) simp_all
  with assms(1,2) have first: "pedal_on (ISR g p) = (\<not> pedal_on g)" "switch_pressed (ISR g p)"
    and qs: "\<forall>p\<in>set qs. pressed p"
    by (simp_all add: ISR_simps rising_def)
  from held_pedal[OF first(2) qs] first(1) show flip: "pedal_on (run g ps) = (\<not> pedal_on g)"
    by (simp add: ps)
  have "\<not> (pedal_on (run g ps) \<and> expired_now (run g ps))"
  proof (cases "pedal_on g")
    case True
    with flip show ?thesis
      by simp
  next
    case False
    from hold_from_idle(4)[OF assms(1) False assms(2,3)] assms(4) show ?thesis
      by simp
  qed
  with assms(5) show "pedal_on (ISR (run g ps) r) = pedal_on (run g ps)"
    and "\<not> arms (run g ps) r"
    by (auto simp add: ISR_pedal_on arms_def rising_def)
qed

end
